theory Spec2Isabelle
  imports Complex_Main "HOL-Library.Word"
begin

section \<open>LucidIQ backend: request sanitizer and response extractor\<close>

text \<open>
  The repository holds two copies of one Express server (\<^verbatim>\<open>src/index.js\<close> for
  Railway and \<^verbatim>\<open>src/unnamed/part_000\<close> for Render). The helper
  \<^verbatim>\<open>sanitizeInput\<close>, the parse block of \<^verbatim>\<open>/api/analyze\<close> and the validation
  of both endpoints are the same text in both files, so one embedding covers both.
\<close>

subsection \<open>JavaScript strings and values\<close>

text \<open>
  A JavaScript string is a sequence of UTF-16 code units; \<^verbatim>\<open>length\<close>,
  \<^verbatim>\<open>substring\<close> and the regular expressions of the source (none has the
  \<^verbatim>\<open>u\<close> flag) all work on code units.
\<close>

type_synonym jschar = "16 word"
type_synonym jsstring = "jschar list"

definition ch :: "char \<Rightarrow> jschar" where
  "ch c = of_nat (of_char c)"

definition js :: "string \<Rightarrow> jsstring" where
  "js s = map ch s"

text \<open>
  The values that \<^verbatim>\<open>express.json()\<close> and \<^verbatim>\<open>JSON.parse\<close> produce. A number
  is kept as the exact value its literal denotes (rounding to binary64 is not part of
  the model). An object is the list of its own properties in enumeration order.
\<close>

datatype json =
    JNull
  | JBool bool
  | JNumber rat
  | JString jsstring
  | JArray "json list"
  | JObject "(jsstring \<times> json) list"

subsection \<open>Built-in string operations used by the source\<close>

text \<open>\<^verbatim>\<open>String.prototype.substring(start, end)\<close>: both arguments are clamped to
  \<open>[0, length]\<close> and swapped when \<open>start > end\<close>.\<close>

definition substring :: "jsstring \<Rightarrow> int \<Rightarrow> int \<Rightarrow> jsstring" where
  "substring s start end =
     (let len = int (length s);
          a = min (max start 0) len;
          b = min (max end 0) len;
          from = min a b;
          to = max a b
      in take (nat (to - from)) (drop (nat from) s))"

text \<open>The code units \<^verbatim>\<open>trim\<close> removes: ECMAScript WhiteSpace and LineTerminator.\<close>

definition isWhiteSpace :: "jschar \<Rightarrow> bool" where
  "isWhiteSpace c =
     ((0x0009 \<le> c \<and> c \<le> 0x000D) \<or> c = 0x0020 \<or> c = 0x00A0 \<or> c = 0x1680
      \<or> (0x2000 \<le> c \<and> c \<le> 0x200A) \<or> c = 0x2028 \<or> c = 0x2029 \<or> c = 0x202F
      \<or> c = 0x205F \<or> c = 0x3000 \<or> c = 0xFEFF)"

definition trim :: "jsstring \<Rightarrow> jsstring" where
  "trim s = rev (dropWhile isWhiteSpace (rev (dropWhile isWhiteSpace s)))"

subsection \<open>Regular expressions of the source\<close>

text \<open>
  A regular expression is modelled by its matcher at one position: given the code unit
  before the position (if any) and the input from the position on, the length of the
  match there. \<^verbatim>\<open>s.replace(re, '')\<close> with the \<^verbatim>\<open>g\<close> flag tries the positions
  from left to right, deletes a match and goes on behind it, and keeps the code unit
  of a position that has no match (an empty match deletes nothing).
\<close>

type_synonym regex = "jschar option \<Rightarrow> jsstring \<Rightarrow> nat option"

function replaceAllEmpty :: "regex \<Rightarrow> jschar option \<Rightarrow> jsstring \<Rightarrow> jsstring" where
  "replaceAllEmpty re prev [] = []"
| "replaceAllEmpty re prev (c # cs) =
     (case re prev (c # cs) of
        Some (Suc n) \<Rightarrow>
          replaceAllEmpty re (Some (last (take (Suc n) (c # cs)))) (drop (Suc n) (c # cs))
      | _ \<Rightarrow> c # replaceAllEmpty re (Some c) cs)"
  by pat_completeness auto
termination
  by (relation "measure (\<lambda>(re, prev, s). length s)") auto

definition replaceAll :: "jsstring \<Rightarrow> regex \<Rightarrow> jsstring" where
  "replaceAll s re = replaceAllEmpty re None s"

text \<open>\<^verbatim>\<open>/[<>{}[\]`]/\<close>: one code unit of the class.\<close>

definition forbiddenChars :: "jschar list" where
  "forbiddenChars = [0x3C, 0x3E, 0x7B, 0x7D, 0x5B, 0x5D, 0x60]"

definition charClassRegex :: regex where
  "charClassRegex prev s =
     (case s of [] \<Rightarrow> None | c # _ \<Rightarrow> if c \<in> set forbiddenChars then Some 1 else None)"

text \<open>
  \<^verbatim>\<open>/\b(ignore|forget|disregard|override|instead|pretend|imagine|roleplay|jailbreak)\b/gi\<close>.
  \<^verbatim>\<open>\w\<close> is \<^verbatim>\<open>[A-Za-z0-9_]\<close>; \<^verbatim>\<open>\b\<close> holds where exactly one of the two
  neighbours is a word character (the ends of the input count as non-word). With the
  \<^verbatim>\<open>i\<close> flag two code units match when their canonical forms agree; without the
  \<^verbatim>\<open>u\<close> flag a code unit from 128 on never canonicalises to an ASCII one, so
  against the ASCII letters of this pattern the canonical form is ASCII upper case.
  The alternatives are tried in the order written, each followed by the closing
  \<^verbatim>\<open>\b\<close>.
\<close>

definition isWordChar :: "jschar \<Rightarrow> bool" where
  "isWordChar c =
     ((0x30 \<le> c \<and> c \<le> 0x39) \<or> (0x41 \<le> c \<and> c \<le> 0x5A) \<or> c = 0x5F
      \<or> (0x61 \<le> c \<and> c \<le> 0x7A))"

definition isWordAt :: "jschar option \<Rightarrow> bool" where
  "isWordAt x = (case x of None \<Rightarrow> False | Some c \<Rightarrow> isWordChar c)"

definition wordBoundary :: "jschar option \<Rightarrow> jschar option \<Rightarrow> bool" where
  "wordBoundary a b = (isWordAt a \<noteq> isWordAt b)"

definition canonicalize :: "jschar \<Rightarrow> jschar" where
  "canonicalize c = (if 0x61 \<le> c \<and> c \<le> 0x7A then c - 0x20 else c)"

definition matchLiteralCI :: "jsstring \<Rightarrow> jsstring \<Rightarrow> bool" where
  "matchLiteralCI w s =
     (length w \<le> length s \<and> map canonicalize (take (length w) s) = map canonicalize w)"

definition charAt :: "jsstring \<Rightarrow> nat \<Rightarrow> jschar option" where
  "charAt s i = (if i < length s then Some (s ! i) else None)"

definition denylist :: "jsstring list" where
  "denylist = map js [''ignore'', ''forget'', ''disregard'', ''override'', ''instead'',
                      ''pretend'', ''imagine'', ''roleplay'', ''jailbreak'']"

definition wordThenBoundary :: "jsstring \<Rightarrow> jsstring \<Rightarrow> bool" where
  "wordThenBoundary s w =
     (matchLiteralCI w s \<and> wordBoundary (charAt s (length w - 1)) (charAt s (length w)))"

definition wordsRegex :: regex where
  "wordsRegex prev s =
     (if wordBoundary prev (charAt s 0)
      then map_option length (find (wordThenBoundary s) denylist)
      else None)"

subsection \<open>sanitizeInput\<close>

text \<open>
  \<^verbatim>\<open>
  function sanitizeInput(input, maxLength = 200) {
    if (!input || typeof input !== 'string') return '';
    return input
      .substring(0, maxLength)
      .replace(/[<>{}[\]`]/g, '')
      .replace(/\b(ignore|...|jailbreak)\b/gi, '')
      .trim();
  }
  \<close>
  The argument is \<open>None\<close> when the field is absent (\<^verbatim>\<open>undefined\<close>). Only a
  non-empty string passes the guard: every other value is either falsy or not a string.
\<close>

definition sanitizeInput :: "json option \<Rightarrow> int \<Rightarrow> jsstring" where
  "sanitizeInput input maxLength =
     (case input of
        Some (JString s) \<Rightarrow>
          if s = [] then []
          else trim (replaceAll (replaceAll (substring s 0 maxLength) charClassRegex) wordsRegex)
      | _ \<Rightarrow> [])"

subsection \<open>The stages of the sanitizer in the words of the specification\<close>

text \<open>
  The specification describes the two substitutions by what they remove: every code unit
  of the set \<^verbatim>\<open>< > { } [ ] `\<close>, and every whole word (a maximal run of word
  characters) that equals a token of the denylist up to ASCII case.
\<close>

definition removeChars :: "jsstring \<Rightarrow> jsstring" where
  "removeChars s = filter (\<lambda>c. c \<notin> set forbiddenChars) s"

definition isDenied :: "jsstring \<Rightarrow> bool" where
  "isDenied r = list_ex (\<lambda>w. map canonicalize r = map canonicalize w) denylist"

function removeWholeWords :: "jsstring \<Rightarrow> jsstring" where
  "removeWholeWords [] = []"
| "removeWholeWords (c # cs) =
     (if isWordChar c
      then (if isDenied (takeWhile isWordChar (c # cs))
            then removeWholeWords (dropWhile isWordChar cs)
            else takeWhile isWordChar (c # cs) @ removeWholeWords (dropWhile isWordChar cs))
      else c # removeWholeWords cs)"
  by pat_completeness auto
termination
  by (relation "measure length") (auto simp: length_dropWhile_le less_Suc_eq_le)

text \<open>
  A whole-word occurrence of \<open>w\<close> in \<open>s\<close>: a position where
  \<^verbatim>\<open>/\bw\b/i\<close> matches.
\<close>

definition prevChar :: "jsstring \<Rightarrow> nat \<Rightarrow> jschar option" where
  "prevChar s i = (if i = 0 then None else charAt s (i - 1))"

definition wholeWordAt :: "jsstring \<Rightarrow> jsstring \<Rightarrow> nat \<Rightarrow> bool" where
  "wholeWordAt w s i =
     (wordBoundary (prevChar s i) (charAt s i) \<and> wordThenBoundary (drop i s) w)"

definition wholeWordOccurs :: "jsstring \<Rightarrow> jsstring \<Rightarrow> bool" where
  "wholeWordOccurs w s = list_ex (wholeWordAt w s) [0..<Suc (length s)]"

subsection \<open>JSON.parse\<close>

text \<open>
  \<^verbatim>\<open>JSON.parse\<close> is a built-in; it is modelled after the JSON grammar of
  ECMA-404 as a tokenizer followed by a pushdown automaton over the tokens. \<open>None\<close>
  stands for the \<^verbatim>\<open>SyntaxError\<close> it throws.
\<close>

datatype token =
    TLBrace | TRBrace | TLBracket | TRBracket | TColon | TComma
  | TString jsstring | TNumber rat | TTrue | TFalse | TNull

definition isJsonSpace :: "jschar \<Rightarrow> bool" where
  "isJsonSpace c = (c = 0x20 \<or> c = 0x09 \<or> c = 0x0A \<or> c = 0x0D)"

definition isDigit :: "jschar \<Rightarrow> bool" where
  "isDigit c = (0x30 \<le> c \<and> c \<le> 0x39)"

definition digitsVal :: "jsstring \<Rightarrow> nat" where
  "digitsVal ds = foldl (\<lambda>a c. 10 * a + unat (c - 0x30)) 0 ds"

definition hexVal :: "jschar \<Rightarrow> nat option" where
  "hexVal c =
     (if 0x30 \<le> c \<and> c \<le> 0x39 then Some (unat (c - 0x30))
      else if 0x41 \<le> c \<and> c \<le> 0x46 then Some (unat (c - 0x41) + 10)
      else if 0x61 \<le> c \<and> c \<le> 0x66 then Some (unat (c - 0x61) + 10)
      else None)"

definition hex4 :: "jschar \<Rightarrow> jschar \<Rightarrow> jschar \<Rightarrow> jschar \<Rightarrow> jschar option" where
  "hex4 a b c d =
     (case (hexVal a, hexVal b, hexVal c, hexVal d) of
        (Some x, Some y, Some z, Some w) \<Rightarrow> Some (of_nat (((x * 16 + y) * 16 + z) * 16 + w))
      | _ \<Rightarrow> None)"

definition unescape :: "jschar \<Rightarrow> jschar option" where
  "unescape e =
     (if e = 0x22 then Some 0x22
      else if e = 0x5C then Some 0x5C
      else if e = 0x2F then Some 0x2F
      else if e = 0x62 then Some 0x08
      else if e = 0x66 then Some 0x0C
      else if e = 0x6E then Some 0x0A
      else if e = 0x72 then Some 0x0D
      else if e = 0x74 then Some 0x09
      else None)"

text \<open>
  A string literal ends at the first quote that no backslash escapes: \<open>stringEnd\<close>
  finds its distance. The body before it is then decoded: an escape is one of
  \<^verbatim>\<open>\" \\ \/ \b \f \n \r \t\<close> or \<^verbatim>\<open>\u\<close> with four hexadecimal digits, and
  a control character below \<open>0x20\<close> may not stand unescaped.
\<close>

fun stringEnd :: "jsstring \<Rightarrow> nat option" where
  "stringEnd [] = None"
| "stringEnd (c # cs) =
     (if c = 0x22 then Some 0
      else if c = 0x5C then
        (case cs of [] \<Rightarrow> None | e # r \<Rightarrow> map_option (\<lambda>n. n + 2) (stringEnd r))
      else map_option Suc (stringEnd cs))"

fun decodeString :: "jsstring \<Rightarrow> jsstring option" where
  "decodeString [] = Some []"
| "decodeString (c # cs) =
     (if c = 0x5C then
        (case cs of
           [] \<Rightarrow> None
         | e # r \<Rightarrow>
             if e = 0x75 then
               (case r of
                  h1 # h2 # h3 # h4 # r' \<Rightarrow>
                    (case hex4 h1 h2 h3 h4 of
                       None \<Rightarrow> None
                     | Some x \<Rightarrow> map_option ((#) x) (decodeString r'))
                | _ \<Rightarrow> None)
             else
               (case unescape e of
                  None \<Rightarrow> None
                | Some x \<Rightarrow> map_option ((#) x) (decodeString r)))
      else if c < 0x20 \<or> c = 0x22 then None
      else map_option ((#) c) (decodeString cs))"

text \<open>
  A number token is the longest run of the characters a number can hold. In a JSON text
  a number is followed by whitespace, a comma or a closing bracket, so the run is the
  number; the run as a whole must read as
  \<^verbatim>\<open>-? (0 | [1-9][0-9]*) (. [0-9]+)? ([eE] [+-]? [0-9]+)?\<close>.
\<close>

definition isNumChar :: "jschar \<Rightarrow> bool" where
  "isNumChar c = (isDigit c \<or> c = 0x2B \<or> c = 0x2D \<or> c = 0x2E \<or> c = 0x45 \<or> c = 0x65)"

definition fracPart :: "jsstring \<Rightarrow> (jsstring \<times> jsstring) option" where
  "fracPart s =
     (case s of
        [] \<Rightarrow> Some ([], [])
      | c # r \<Rightarrow>
          if c = 0x2E then
            (if takeWhile isDigit r = [] then None
             else Some (takeWhile isDigit r, dropWhile isDigit r))
          else Some ([], s))"

definition expPart :: "jsstring \<Rightarrow> int option" where
  "expPart s =
     (case s of
        [] \<Rightarrow> Some 0
      | c # r \<Rightarrow>
          if c = 0x65 \<or> c = 0x45 then
            (case r of
               [] \<Rightarrow> None
             | d # r' \<Rightarrow>
                 if d = 0x2D then
                   (if r' \<noteq> [] \<and> list_all isDigit r' then Some (- int (digitsVal r')) else None)
                 else if d = 0x2B then
                   (if r' \<noteq> [] \<and> list_all isDigit r' then Some (int (digitsVal r')) else None)
                 else if list_all isDigit r then Some (int (digitsVal r)) else None)
          else None)"

definition pow10 :: "int \<Rightarrow> rat" where
  "pow10 e = (if 0 \<le> e then 10 ^ nat e else 1 / 10 ^ nat (- e))"

definition decodeUnsigned :: "jsstring \<Rightarrow> rat option" where
  "decodeUnsigned s =
     (let ip = takeWhile isDigit s in
      if ip = [] \<or> (1 < length ip \<and> hd ip = 0x30) then None
      else
        (case fracPart (dropWhile isDigit s) of
           None \<Rightarrow> None
         | Some (fd, rest) \<Rightarrow>
             (case expPart rest of
                None \<Rightarrow> None
              | Some e \<Rightarrow>
                  Some ((of_nat (digitsVal ip) + of_nat (digitsVal fd) / 10 ^ length fd)
                        * pow10 e))))"

definition decodeNumber :: "jsstring \<Rightarrow> rat option" where
  "decodeNumber s =
     (case s of
        [] \<Rightarrow> None
      | c # r \<Rightarrow> if c = 0x2D then map_option uminus (decodeUnsigned r) else decodeUnsigned s)"

definition consTok :: "token \<Rightarrow> token list option \<Rightarrow> token list option" where
  "consTok t r = map_option ((#) t) r"

function tokenize :: "jsstring \<Rightarrow> token list option" where
  "tokenize [] = Some []"
| "tokenize (c # cs) =
     (if isJsonSpace c then tokenize cs
      else if c = 0x7B then consTok TLBrace (tokenize cs)
      else if c = 0x7D then consTok TRBrace (tokenize cs)
      else if c = 0x5B then consTok TLBracket (tokenize cs)
      else if c = 0x5D then consTok TRBracket (tokenize cs)
      else if c = 0x3A then consTok TColon (tokenize cs)
      else if c = 0x2C then consTok TComma (tokenize cs)
      else if c = 0x22 then
        (case stringEnd cs of
           None \<Rightarrow> None
         | Some n \<Rightarrow>
             (case decodeString (take n cs) of
                None \<Rightarrow> None
              | Some s \<Rightarrow> consTok (TString s) (tokenize (drop (Suc n) cs))))
      else if c = 0x2D \<or> isDigit c then
        (case decodeNumber (c # takeWhile isNumChar cs) of
           None \<Rightarrow> None
         | Some q \<Rightarrow> consTok (TNumber q) (tokenize (dropWhile isNumChar cs)))
      else if take 4 (c # cs) = js ''true'' then consTok TTrue (tokenize (drop 3 cs))
      else if take 5 (c # cs) = js ''false'' then consTok TFalse (tokenize (drop 4 cs))
      else if take 4 (c # cs) = js ''null'' then consTok TNull (tokenize (drop 3 cs))
      else None)"
  by pat_completeness auto
termination
  by (relation "measure length") (auto simp: less_Suc_eq_le length_dropWhile_le)

text \<open>
  Own properties are enumerated with the array indices first, in ascending numeric
  order, and the other keys after them in the order of their creation. An array index is
  a key that is the canonical decimal string of a number below \<open>2\<^sup>3\<^sup>2 - 1\<close>.
  A key that occurs again keeps its place and takes the later value.
\<close>

function natString :: "nat \<Rightarrow> jsstring" where
  "natString n = (if n < 10 then [0x30 + of_nat n] else natString (n div 10) @ [0x30 + of_nat (n mod 10)])"
  by pat_completeness auto
termination
  by (relation "measure id") auto

definition arrayIndex :: "jsstring \<Rightarrow> nat option" where
  "arrayIndex k =
     (if k \<noteq> [] \<and> list_all isDigit k \<and> natString (digitsVal k) = k \<and> digitsVal k < 4294967295
      then Some (digitsVal k) else None)"

fun insertIndexed :: "nat \<Rightarrow> jsstring \<Rightarrow> json \<Rightarrow> (jsstring \<times> json) list \<Rightarrow> (jsstring \<times> json) list" where
  "insertIndexed i k v [] = [(k, v)]"
| "insertIndexed i k v ((k', v') # rest) =
     (case arrayIndex k' of
        Some j \<Rightarrow> if j < i then (k', v') # insertIndexed i k v rest else (k, v) # (k', v') # rest
      | None \<Rightarrow> (k, v) # (k', v') # rest)"

definition putProperty :: "jsstring \<Rightarrow> json \<Rightarrow> (jsstring \<times> json) list \<Rightarrow> (jsstring \<times> json) list" where
  "putProperty k v kvs =
     (if k \<in> fst ` set kvs then map (\<lambda>(k', v'). if k' = k then (k', v) else (k', v')) kvs
      else (case arrayIndex k of
              Some i \<Rightarrow> insertIndexed i k v kvs
            | None \<Rightarrow> kvs @ [(k, v)]))"

text \<open>
  The parser reads the tokens one by one. Its stack holds the arrays and objects that are
  still open, each with what it has collected so far (an open object also with the key
  whose value is being read); its state says which token may come next.
\<close>

datatype frame = FArray "json list" | FObject "(jsstring \<times> json) list" jsstring

datatype pstate =
    PValue "frame list"
  | PArrayStart "frame list"
  | PObjectStart "frame list"
  | PKey "(jsstring \<times> json) list" "frame list"
  | PColon "(jsstring \<times> json) list" jsstring "frame list"
  | PArrayNext "json list" "frame list"
  | PObjectNext "(jsstring \<times> json) list" "frame list"
  | PDone json

fun reduce :: "json \<Rightarrow> frame list \<Rightarrow> pstate" where
  "reduce v [] = PDone v"
| "reduce v (FArray xs # st) = PArrayNext (xs @ [v]) st"
| "reduce v (FObject kvs k # st) = PObjectNext (putProperty k v kvs) st"

fun startValue :: "token \<Rightarrow> frame list \<Rightarrow> pstate option" where
  "startValue TLBrace st = Some (PObjectStart st)"
| "startValue TLBracket st = Some (PArrayStart st)"
| "startValue (TString s) st = Some (reduce (JString s) st)"
| "startValue (TNumber q) st = Some (reduce (JNumber q) st)"
| "startValue TTrue st = Some (reduce (JBool True) st)"
| "startValue TFalse st = Some (reduce (JBool False) st)"
| "startValue TNull st = Some (reduce JNull st)"
| "startValue _ st = None"

fun step :: "pstate \<Rightarrow> token \<Rightarrow> pstate option" where
  "step (PValue st) t = startValue t st"
| "step (PArrayStart st) t =
     (if t = TRBracket then Some (reduce (JArray []) st) else startValue t (FArray [] # st))"
| "step (PObjectStart st) t =
     (case t of
        TRBrace \<Rightarrow> Some (reduce (JObject []) st)
      | TString k \<Rightarrow> Some (PColon [] k st)
      | _ \<Rightarrow> None)"
| "step (PKey kvs st) t = (case t of TString k \<Rightarrow> Some (PColon kvs k st) | _ \<Rightarrow> None)"
| "step (PColon kvs k st) t = (if t = TColon then Some (PValue (FObject kvs k # st)) else None)"
| "step (PArrayNext xs st) t =
     (case t of
        TComma \<Rightarrow> Some (PValue (FArray xs # st))
      | TRBracket \<Rightarrow> Some (reduce (JArray xs) st)
      | _ \<Rightarrow> None)"
| "step (PObjectNext kvs st) t =
     (case t of
        TComma \<Rightarrow> Some (PKey kvs st)
      | TRBrace \<Rightarrow> Some (reduce (JObject kvs) st)
      | _ \<Rightarrow> None)"
| "step (PDone v) t = None"

fun parseTokens :: "pstate \<Rightarrow> token list \<Rightarrow> json option" where
  "parseTokens s [] = (case s of PDone v \<Rightarrow> Some v | _ \<Rightarrow> None)"
| "parseTokens s (t # ts) = (case step s t of None \<Rightarrow> None | Some s' \<Rightarrow> parseTokens s' ts)"

definition JSON_parse :: "jsstring \<Rightarrow> json option" where
  "JSON_parse text =
     (case tokenize text of None \<Rightarrow> None | Some ts \<Rightarrow> parseTokens (PValue []) ts)"

subsection \<open>JSON.stringify\<close>











subsection \<open>The response extractor of /api/analyze\<close>

text \<open>
  \<^verbatim>\<open>
  let analysis;
  try {
    let cleanContent = content
      .replace(/```json\n?/g, '')
      .replace(/```\n?/g, '')
      .trim();
    analysis = JSON.parse(cleanContent);
  } catch (parseError) {
    const jsonMatch = content.match(/\{[\s\S]*\}/);
    if (jsonMatch) {
      try {
        analysis = JSON.parse(jsonMatch[0]);
      } catch (e) {
        return res.status(500).json({ error: 'Failed to parse analysis' });
      }
    } else {
      return res.status(500).json({ error: 'Invalid response format' });
    }
  }
  \<close>
\<close>

definition fenceJsonRegex :: regex where
  "fenceJsonRegex prev s =
     (if take 7 s = js ''```json''
      then (if take 1 (drop 7 s) = [0x0A] then Some 8 else Some 7)
      else None)"

definition fenceRegex :: regex where
  "fenceRegex prev s =
     (if take 3 s = js ''```''
      then (if take 1 (drop 3 s) = [0x0A] then Some 4 else Some 3)
      else None)"

text \<open>
  \<^verbatim>\<open>content.match(/\{[\s\S]*\}/)\<close>: the leftmost \<^verbatim>\<open>{\<close> that has a
  \<^verbatim>\<open>}\<close> behind it, and, the star being greedy, everything up to the last
  \<^verbatim>\<open>}\<close> of the text. When the first \<^verbatim>\<open>{\<close> has no \<^verbatim>\<open>}\<close> behind it,
  no later one has, and the result is \<^verbatim>\<open>null\<close>.
\<close>

definition matchBraces :: "jsstring \<Rightarrow> jsstring option" where
  "matchBraces s =
     (case dropWhile (\<lambda>c. c \<noteq> 0x7B) s of
        [] \<Rightarrow> None
      | c0 # rest \<Rightarrow>
          (case rev (dropWhile (\<lambda>c. c \<noteq> 0x7D) (rev rest)) of
             [] \<Rightarrow> None
           | body \<Rightarrow> Some (c0 # body)))"

definition cleanContent :: "jsstring \<Rightarrow> jsstring" where
  "cleanContent content = trim (replaceAll (replaceAll content fenceJsonRegex) fenceRegex)"

datatype extract_error = FailedToParse | InvalidFormat

definition extractStructured :: "jsstring \<Rightarrow> extract_error + json" where
  "extractStructured content =
     (case JSON_parse (cleanContent content) of
        Some analysis \<Rightarrow> Inr analysis
      | None \<Rightarrow>
          (case matchBraces content of
             Some jsonMatch \<Rightarrow>
               (case JSON_parse jsonMatch of
                  Some analysis \<Rightarrow> Inr analysis
                | None \<Rightarrow> Inl FailedToParse)
           | None \<Rightarrow> Inl InvalidFormat))"

subsection \<open>The two request handlers\<close>

text \<open>
  Truthiness of a request field (\<open>None\<close> is \<^verbatim>\<open>undefined\<close>).
\<close>

fun truthy :: "json option \<Rightarrow> bool" where
  "truthy None = False"
| "truthy (Some JNull) = False"
| "truthy (Some (JBool b)) = b"
| "truthy (Some (JNumber q)) = (q \<noteq> 0)"
| "truthy (Some (JString s)) = (s \<noteq> [])"
| "truthy (Some (JArray xs)) = True"
| "truthy (Some (JObject kvs)) = True"

record analyzeRequest =
  productName :: "json option"
  productUrl :: "json option"
  detectedPrice :: "json option"
  detectedRating :: "json option"
  detectedReviewCount :: "json option"
  isBundle :: "json option"

record chatRequest =
  message :: "json option"
  productContext :: "json option"
  chatHistory :: "json option"

text \<open>
  What the call of the completion API gives back: \<^verbatim>\<open>fetch\<close> or the reading of
  the body threw, the response was not \<^verbatim>\<open>ok\<close> (with its text), or the text of
  \<^verbatim>\<open>data.choices[0].message.content\<close>. The prompt, built from the sanitized
  fields, only reaches the API; the reply is an input of the model.
\<close>

datatype upstream = Threw jsstring | NotOk jsstring | Completion jsstring

type_synonym response = "nat \<times> json"

definition errorBody :: "string \<Rightarrow> json" where
  "errorBody msg = JObject [(js ''error'', JString (js msg))]"

text \<open>
  \<^verbatim>\<open>analysis.analyzedAt = new Date().toISOString()\<close>, then
  \<^verbatim>\<open>res.json(analysis)\<close>. On an object the assignment sets the property. On
  \<^verbatim>\<open>null\<close> it throws a TypeError, which the outer \<^verbatim>\<open>catch\<close> turns into
  a 500. On an array it sets a property that \<^verbatim>\<open>JSON.stringify\<close> does not print,
  and on a number, string or boolean it does nothing (the module is not in strict
  mode), so the body sent is the value itself.
\<close>

fun stampAnalyzedAt :: "json \<Rightarrow> jsstring \<Rightarrow> json option" where
  "stampAnalyzedAt (JObject kvs) now =
     Some (JObject (putProperty (js ''analyzedAt'') (JString now) kvs))"
| "stampAnalyzedAt JNull now = None"
| "stampAnalyzedAt v now = Some v"

definition nullAssignMessage :: jsstring where
  "nullAssignMessage =
     js ''Cannot set properties of null (setting '' @ [0x27] @ js ''analyzedAt'' @ [0x27] @ js '')''"

definition analyze :: "analyzeRequest \<Rightarrow> jsstring option \<Rightarrow> upstream \<Rightarrow> jsstring \<Rightarrow> response" where
  "analyze req apiKey reply now =
     (let cleanProductName = sanitizeInput (productName req) 200 in
      if cleanProductName = [] then (400, errorBody ''Valid product name is required'')
      else if apiKey = None \<or> apiKey = Some [] then (500, errorBody ''API key not configured'')
      else
        (case reply of
           Threw msg \<Rightarrow>
             (500, JObject [(js ''error'', JString (js ''Server error'')),
                            (js ''message'', JString msg)])
         | NotOk errorData \<Rightarrow>
             (500, JObject [(js ''error'', JString (js ''Analysis failed'')),
                            (js ''details'', JString errorData)])
         | Completion content \<Rightarrow>
             (case extractStructured content of
                Inl FailedToParse \<Rightarrow> (500, errorBody ''Failed to parse analysis'')
              | Inl InvalidFormat \<Rightarrow> (500, errorBody ''Invalid response format'')
              | Inr analysis \<Rightarrow>
                  (case stampAnalyzedAt analysis now of
                     None \<Rightarrow>
                       (500, JObject [(js ''error'', JString (js ''Server error'')),
                                      (js ''message'', JString nullAssignMessage)])
                   | Some stamped \<Rightarrow> (200, stamped)))))"

text \<open>
  \<^verbatim>\<open>
  app.post('/api/chat', async (req, res) => {
    const { message, productContext, chatHistory } = req.body;
    if (!message) {
      return res.status(400).json({ error: 'Message is required' });
    }
    const PERPLEXITY_API_KEY = process.env.PERPLEXITY_API_KEY;
    if (!PERPLEXITY_API_KEY) {
      return res.status(500).json({ error: 'API key not configured' });
    }
    const cleanMessage = sanitizeInput(message, 500);
    ...
  \<close>
  The raw \<^verbatim>\<open>message\<close> is tested, before it is sanitized; \<^verbatim>\<open>cleanMessage\<close>
  goes into the prompt and is not tested again. The model returns it next to the
  response. \<^verbatim>\<open>productContext\<close> and \<^verbatim>\<open>chatHistory\<close> only shape the prompt.
\<close>

definition chat :: "chatRequest \<Rightarrow> jsstring option \<Rightarrow> upstream \<Rightarrow> response \<times> jsstring option" where
  "chat req apiKey reply =
     (if \<not> truthy (message req) then ((400, errorBody ''Message is required''), None)
      else if apiKey = None \<or> apiKey = Some [] then ((500, errorBody ''API key not configured''), None)
      else
        (let cleanMessage = sanitizeInput (message req) 500 in
         (case reply of
            Threw msg \<Rightarrow> ((500, errorBody ''Server error''), Some cleanMessage)
          | NotOk errorData \<Rightarrow> ((500, errorBody ''Failed to process question''), Some cleanMessage)
          | Completion assistantMessage \<Rightarrow>
              ((200, JObject [(js ''message'', JString (trim assistantMessage))]),
               Some cleanMessage))))"

subsection \<open>Notions used to state and prove the properties\<close>








section \<open>The sanitizer\<close>

subsection \<open>The regular expressions compute the stages\<close>

lemma substring_from_0: "substring s 0 n = take (nat n) s"
  by (auto simp: substring_def Let_def min_def max_def)

lemma replaceAll_charClass: "replaceAllEmpty charClassRegex p s = removeChars s"
  by (induction s arbitrary: p) (auto simp: charClassRegex_def removeChars_def)

lemma denylist_letters:
  "w \<in> set denylist \<Longrightarrow> w \<noteq> [] \<and> (\<forall>c\<in>set w. 0x61 \<le> c \<and> c \<le> 0x7A)"
  by (auto simp: denylist_def js_def ch_def)

lemma canon_letter_word:
  assumes "0x61 \<le> l" "l \<le> 0x7A" "canonicalize c = canonicalize l"
  shows "isWordChar c"
  using assms unfolding canonicalize_def isWordChar_def
  by (auto split: if_splits simp: word_le_nat_alt unat_sub)

lemma canon_eq_word_run:
  assumes w: "w \<in> set denylist" and eq: "map canonicalize m = map canonicalize w"
  shows "m \<noteq> [] \<and> length m = length w \<and> (\<forall>c\<in>set m. isWordChar c)"
proof -
  have len: "length m = length w"
    using eq by (rule map_eq_imp_length_eq)
  have ne: "m \<noteq> []"
    using len denylist_letters [OF w] by auto
  have "isWordChar c" if "c \<in> set m" for c
  proof -
    from that obtain i where i: "i < length m" "c = m ! i"
      by (auto simp: in_set_conv_nth)
    have "canonicalize (m ! i) = canonicalize (w ! i)"
      using eq i len by (metis nth_map)
    moreover have "0x61 \<le> w ! i \<and> w ! i \<le> 0x7A"
      using denylist_letters [OF w] i len by auto
    ultimately show ?thesis
      using i canon_letter_word by blast
  qed
  with len ne show ?thesis by blast
qed

lemma isDenied_word_run: "isDenied r \<Longrightarrow> r \<noteq> [] \<and> (\<forall>c\<in>set r. isWordChar c)"
  unfolding isDenied_def list_ex_iff using canon_eq_word_run by blast

lemma takeWhile_is_take:
  assumes "n \<le> length s" "\<forall>c\<in>set (take n s). P c" "n < length s \<longrightarrow> \<not> P (s ! n)"
  shows "takeWhile P s = take n s"
proof -
  have "s = take n s @ drop n s" by simp
  then have "takeWhile P s = takeWhile P (take n s @ drop n s)" by simp
  also have "\<dots> = take n s @ takeWhile P (drop n s)"
    using assms(2) by (intro takeWhile_append2) auto
  also have "takeWhile P (drop n s) = []"
  proof (cases "n < length s")
    case True
    then have "drop n s = s ! n # drop (Suc n) s"
      by (simp add: Cons_nth_drop_Suc)
    with True assms(3) show ?thesis by simp
  next
    case False
    then show ?thesis by simp
  qed
  finally show ?thesis by simp
qed

lemma wordThenBoundary_run:
  assumes w: "w \<in> set denylist" and m: "wordThenBoundary s w"
  shows "takeWhile isWordChar s = take (length w) s \<and> isWordAt (charAt s 0)
         \<and> map canonicalize (take (length w) s) = map canonicalize w"
proof -
  from m have le: "length w \<le> length s"
    and eq: "map canonicalize (take (length w) s) = map canonicalize w"
    and bd: "wordBoundary (charAt s (length w - 1)) (charAt s (length w))"
    by (auto simp: wordThenBoundary_def matchLiteralCI_def)
  from canon_eq_word_run [OF w eq]
  have ne: "w \<noteq> []" and wc: "\<forall>c\<in>set (take (length w) s). isWordChar c"
    by auto
  have pos: "0 < length w" using ne by simp
  then have lt: "length w - 1 < length s" using le by arith
  have "s ! (length w - 1) \<in> set (take (length w) s)"
    using le pos by (metis diff_less in_set_conv_nth length_take min.absorb2 nth_take zero_less_one)
  then have "isWordAt (charAt s (length w - 1))"
    using wc lt by (auto simp: isWordAt_def charAt_def)
  with bd have "\<not> isWordAt (charAt s (length w))"
    by (simp add: wordBoundary_def)
  then have "length w < length s \<longrightarrow> \<not> isWordChar (s ! length w)"
    by (auto simp: isWordAt_def charAt_def)
  with le wc have "takeWhile isWordChar s = take (length w) s"
    by (intro takeWhile_is_take) auto
  moreover have "s ! 0 \<in> set (take (length w) s)"
    using le pos by (metis in_set_conv_nth length_take min.absorb2 nth_take)
  then have "isWordAt (charAt s 0)"
    using wc le pos by (auto simp: isWordAt_def charAt_def)
  ultimately show ?thesis using eq by simp
qed

lemma run_wordThenBoundary:
  assumes w: "w \<in> set denylist"
    and eq: "map canonicalize (takeWhile isWordChar s) = map canonicalize w"
  shows "wordThenBoundary s w"
proof -
  let ?r = "takeWhile isWordChar s"
  have len: "length ?r = length w" and ne: "?r \<noteq> []"
    using canon_eq_word_run [OF w eq] by auto
  have le: "length w \<le> length s"
    using len length_takeWhile_le [of isWordChar s] by simp
  have tk: "take (length w) s = ?r"
    by (metis len takeWhile_eq_take)
  have pos: "0 < length w" using ne len by auto
  then have lt: "length w - 1 < length s" using le by arith
  have "s ! (length w - 1) = ?r ! (length w - 1)"
    using pos len by (simp add: takeWhile_nth)
  moreover have "?r ! (length w - 1) \<in> set ?r"
    using pos len by simp
  ultimately have a: "isWordAt (charAt s (length w - 1))"
    using lt by (auto simp: isWordAt_def charAt_def dest: set_takeWhileD)
  have b: "\<not> isWordAt (charAt s (length w))"
    using len nth_length_takeWhile [of isWordChar s]
    by (auto simp: isWordAt_def charAt_def)
  show ?thesis
    using a b le tk eq by (simp add: wordThenBoundary_def matchLiteralCI_def wordBoundary_def)
qed

lemma wordsRegex_run:
  "wordsRegex p s =
     (if \<not> isWordAt p \<and> isDenied (takeWhile isWordChar s)
      then Some (length (takeWhile isWordChar s)) else None)"
proof (cases "find (wordThenBoundary s) denylist")
  case None
  then have no: "\<And>w. w \<in> set denylist \<Longrightarrow> \<not> wordThenBoundary s w"
    by (auto simp: find_None_iff)
  have "\<not> isDenied (takeWhile isWordChar s)"
    using no run_wordThenBoundary by (auto simp: isDenied_def list_ex_iff)
  with None show ?thesis by (simp add: wordsRegex_def)
next
  case (Some w)
  then have w: "w \<in> set denylist" and m: "wordThenBoundary s w"
    by (auto simp: find_Some_iff)
  note r = wordThenBoundary_run [OF w m]
  have "isDenied (takeWhile isWordChar s)"
    using r w by (auto simp: isDenied_def list_ex_iff)
  moreover have "length (takeWhile isWordChar s) = length w"
    using r m by (simp add: wordThenBoundary_def matchLiteralCI_def)
  ultimately show ?thesis
    using Some r by (auto simp: wordsRegex_def wordBoundary_def)
qed

lemma wordsRegex_nonword_head:
  "s = [] \<or> \<not> isWordChar (hd s) \<Longrightarrow> wordsRegex p s = None"
proof -
  assume a: "s = [] \<or> \<not> isWordChar (hd s)"
  then have "takeWhile isWordChar s = []"
    by (cases s) auto
  moreover have "\<not> isDenied []"
    using isDenied_word_run [of "[]"] by blast
  ultimately show ?thesis
    by (simp add: wordsRegex_run)
qed

lemma replaceAllEmpty_skip:
  "re prev (c # cs) = None \<Longrightarrow>
   replaceAllEmpty re prev (c # cs) = c # replaceAllEmpty re (Some c) cs"
  by simp

lemma replaceAllEmpty_match:
  "re prev (c # cs) = Some (Suc n) \<Longrightarrow>
   replaceAllEmpty re prev (c # cs) =
     replaceAllEmpty re (Some (last (take (Suc n) (c # cs)))) (drop n cs)"
  by simp

declare replaceAllEmpty.simps(2) [simp del]

lemma replace_words_inside_run:
  "isWordAt p \<Longrightarrow>
   replaceAllEmpty wordsRegex p s =
     takeWhile isWordChar s @ replaceAllEmpty wordsRegex p' (dropWhile isWordChar s)"
proof (induction s arbitrary: p)
  case Nil
  then show ?case by simp
next
  case (Cons c cs)
  show ?case
  proof (cases "isWordChar c")
    case True
    have "wordsRegex p (c # cs) = None"
      using Cons.prems by (simp add: wordsRegex_run)
    then have "replaceAllEmpty wordsRegex p (c # cs) = c # replaceAllEmpty wordsRegex (Some c) cs"
      by (rule replaceAllEmpty_skip)
    moreover have "isWordAt (Some c)"
      using True by (simp add: isWordAt_def)
    ultimately show ?thesis
      using True Cons.IH [of "Some c"] by simp
  next
    case False
    then have "wordsRegex p (c # cs) = None" "wordsRegex p' (c # cs) = None"
      by (simp_all add: wordsRegex_nonword_head)
    then have "replaceAllEmpty wordsRegex p (c # cs) = c # replaceAllEmpty wordsRegex (Some c) cs"
      "replaceAllEmpty wordsRegex p' (c # cs) = c # replaceAllEmpty wordsRegex (Some c) cs"
      by (simp_all add: replaceAllEmpty_skip)
    with False show ?thesis by simp
  qed
qed

lemma replace_words_refines:
  "\<not> isWordAt p \<or> s = [] \<or> \<not> isWordChar (hd s) \<Longrightarrow>
   replaceAllEmpty wordsRegex p s = removeWholeWords s"
proof (induction s arbitrary: p rule: removeWholeWords.induct)
  case 1
  then show ?case by simp
next
  case (2 c cs)
  let ?rest = "dropWhile isWordChar cs"
  have rest: "?rest = [] \<or> \<not> isWordChar (hd ?rest)"
    using hd_dropWhile [of isWordChar cs] by blast
  show ?case
  proof (cases "isWordChar c")
    case False
    then have "wordsRegex p (c # cs) = None"
      by (simp add: wordsRegex_nonword_head)
    then have "replaceAllEmpty wordsRegex p (c # cs) = c # replaceAllEmpty wordsRegex (Some c) cs"
      by (rule replaceAllEmpty_skip)
    moreover have "replaceAllEmpty wordsRegex (Some c) cs = removeWholeWords cs"
      using False by (intro "2.IH"(3)) (simp_all add: isWordAt_def)
    ultimately show ?thesis using False by simp
  next
    case True
    with "2.prems" have np: "\<not> isWordAt p" by simp
    show ?thesis
    proof (cases "isDenied (takeWhile isWordChar (c # cs))")
      case den: True
      let ?n = "length (takeWhile isWordChar cs)"
      have "wordsRegex p (c # cs) = Some (Suc ?n)"
        using np den True by (simp add: wordsRegex_run)
      then have "replaceAllEmpty wordsRegex p (c # cs) =
          replaceAllEmpty wordsRegex (Some (last (take (Suc ?n) (c # cs)))) (drop ?n cs)"
        by (rule replaceAllEmpty_match)
      moreover have "drop ?n cs = ?rest"
        by (simp add: dropWhile_eq_drop)
      moreover have "replaceAllEmpty wordsRegex q ?rest = removeWholeWords ?rest" for q
        using True den rest by (intro "2.IH"(1)) auto
      ultimately show ?thesis using True den by simp
    next
      case nden: False
      have "wordsRegex p (c # cs) = None"
        using nden by (simp add: wordsRegex_run)
      then have "replaceAllEmpty wordsRegex p (c # cs) = c # replaceAllEmpty wordsRegex (Some c) cs"
        by (rule replaceAllEmpty_skip)
      moreover have "isWordAt (Some c)"
        using True by (simp add: isWordAt_def)
      moreover have "replaceAllEmpty wordsRegex None ?rest = removeWholeWords ?rest"
        using True nden rest by (intro "2.IH"(2)) auto
      ultimately show ?thesis
        using True nden replace_words_inside_run [of "Some c" cs None] by simp
    qed
  qed
qed

lemma replaceAll_words: "replaceAll s wordsRegex = removeWholeWords s"
  by (simp add: replaceAll_def replace_words_refines isWordAt_def)

lemma replaceAll_chars: "replaceAll s charClassRegex = removeChars s"
  by (simp add: replaceAll_def replaceAll_charClass)

lemma sanitize_string:
  "sanitizeInput (Some (JString s)) n = trim (removeWholeWords (removeChars (take (nat n) s)))"
  by (simp add: sanitizeInput_def replaceAll_words replaceAll_chars substring_from_0
      trim_def removeChars_def)

lemma whitespace_not_word: "isWhiteSpace c \<Longrightarrow> \<not> isWordChar c"
  unfolding isWhiteSpace_def isWordChar_def
  by (auto simp: word_le_nat_alt)

lemma takeWhile_snoc_not: "\<not> P c \<Longrightarrow> takeWhile P (xs @ [c]) = takeWhile P xs"
  by (induction xs) auto

lemma dropWhile_snoc_not: "\<not> P c \<Longrightarrow> dropWhile P (xs @ [c]) = dropWhile P xs @ [c]"
  by (induction xs) auto

lemma removeWholeWords_length: "length (removeWholeWords s) \<le> length s"
proof (induction s rule: removeWholeWords.induct)
  case 1
  then show ?case by simp
next
  case (2 c cs)
  have "length (dropWhile isWordChar cs) + length (takeWhile isWordChar cs) = length cs"
    by (metis add.commute length_append takeWhile_dropWhile_id)
  with 2 show ?case by auto
qed

lemma removeWholeWords_subset: "set (removeWholeWords s) \<subseteq> set s"
proof (induction s rule: removeWholeWords.induct)
  case 1
  then show ?case by simp
next
  case (2 c cs)
  then show ?case
    by (auto dest: set_takeWhileD set_dropWhileD)
qed

lemma removeWholeWords_run_append:
  assumes "r \<noteq> []" "\<forall>c\<in>set r. isWordChar c" "t = [] \<or> \<not> isWordChar (hd t)"
  shows "removeWholeWords (r @ t) =
           (if isDenied r then removeWholeWords t else r @ removeWholeWords t)"
proof -
  from assms(1) obtain c r' where r: "r = c # r'" by (cases r) auto
  have t: "takeWhile isWordChar t = []" "dropWhile isWordChar t = t"
    using assms(3) by (cases t; simp)+
  have "takeWhile isWordChar (r' @ t) = r'" "dropWhile isWordChar (r' @ t) = t"
    using assms(2) r t by (simp_all add: takeWhile_append2 dropWhile_append2)
  then show ?thesis
    using assms(2) r by simp
qed

lemma removeWholeWords_head:
  "s = [] \<or> \<not> isWordChar (hd s) \<Longrightarrow>
   removeWholeWords s = [] \<or> \<not> isWordChar (hd (removeWholeWords s))"
  by (cases s) auto

lemma removeWholeWords_idem: "removeWholeWords (removeWholeWords s) = removeWholeWords s"
proof (induction s rule: removeWholeWords.induct)
  case 1
  then show ?case by simp
next
  case (2 c cs)
  let ?r = "takeWhile isWordChar (c # cs)"
  let ?rest = "dropWhile isWordChar cs"
  show ?case
  proof (cases "isWordChar c")
    case False
    with 2 show ?thesis by simp
  next
    case True
    show ?thesis
    proof (cases "isDenied ?r")
      case den: True
      with True 2 show ?thesis by simp
    next
      case nden: False
      have hd: "removeWholeWords ?rest = [] \<or> \<not> isWordChar (hd (removeWholeWords ?rest))"
        using hd_dropWhile [of isWordChar cs] by (intro removeWholeWords_head) blast
      have "removeWholeWords (?r @ removeWholeWords ?rest) =
              ?r @ removeWholeWords (removeWholeWords ?rest)"
        using True nden hd
        by (subst removeWholeWords_run_append) (auto dest: set_takeWhileD)
      with True nden 2 show ?thesis by simp
    qed
  qed
qed

lemma removeWholeWords_snoc:
  "\<not> isWordChar c \<Longrightarrow> removeWholeWords (t @ [c]) = removeWholeWords t @ [c]"
proof (induction t rule: removeWholeWords.induct)
  case 1
  then show ?case by simp
next
  case (2 x xs)
  then show ?case
    by (simp add: takeWhile_snoc_not dropWhile_snoc_not)
qed

lemma removeWholeWords_append:
  "pre = [] \<or> \<not> isWordChar (last pre) \<Longrightarrow>
   removeWholeWords (pre @ x) = removeWholeWords pre @ removeWholeWords x"
proof (induction pre rule: removeWholeWords.induct)
  case 1
  then show ?case by simp
next
  case (2 c cs)
  show ?case
  proof (cases "isWordChar c")
    case False
    with 2 show ?thesis by (cases cs) auto
  next
    case True
    with "2.prems" have cs: "cs \<noteq> []" "\<not> isWordChar (last cs)"
      by (auto split: if_splits)
    then have mem: "last cs \<in> set cs" by simp
    have tk: "takeWhile isWordChar (cs @ x) = takeWhile isWordChar cs"
      using mem cs(2) by (rule takeWhile_append1)
    have dr: "dropWhile isWordChar (cs @ x) = dropWhile isWordChar cs @ x"
      using mem cs(2) by (rule dropWhile_append1)
    have ne: "dropWhile isWordChar cs \<noteq> []"
      using mem cs(2) by (auto simp: dropWhile_eq_Nil_conv)
    have "last (takeWhile isWordChar cs @ dropWhile isWordChar cs) = last (dropWhile isWordChar cs)"
      using ne by (rule last_appendR)
    then have "\<not> isWordChar (last (dropWhile isWordChar cs))"
      using cs(2) by simp
    then have "removeWholeWords (dropWhile isWordChar cs @ x) =
        removeWholeWords (dropWhile isWordChar cs) @ removeWholeWords x"
      using True "2.IH"(1,2) by (cases "isDenied (takeWhile isWordChar (c # cs))") auto
    then show ?thesis
      using True tk dr by simp
  qed
qed

lemma trim_ends:
  "trim t = [] \<or> (\<not> isWhiteSpace (hd (trim t)) \<and> \<not> isWhiteSpace (last (trim t)))"
proof (cases "trim t = []")
  case True
  then show ?thesis by simp
next
  case False
  let ?y = "dropWhile isWhiteSpace t"
  let ?z = "dropWhile isWhiteSpace (rev ?y)"
  have z: "?z \<noteq> []" and tz: "trim t = rev ?z"
    using False by (auto simp: trim_def)
  have "\<not> isWhiteSpace (hd ?z)"
    using z hd_dropWhile by blast
  then have l: "\<not> isWhiteSpace (last (trim t))"
    using z tz by (simp add: last_rev)
  have "rev ?y = takeWhile isWhiteSpace (rev ?y) @ ?z"
    by simp
  then have "?y = rev ?z @ rev (takeWhile isWhiteSpace (rev ?y))"
    by (metis rev_append rev_rev_ident)
  then have "hd ?y = hd (rev ?z)" and "?y \<noteq> []"
    using z by (metis hd_append2 rev_is_Nil_conv, metis Nil_is_append_conv rev_is_Nil_conv)
  then have "\<not> isWhiteSpace (hd (trim t))"
    using tz hd_dropWhile [of isWhiteSpace t] by metis
  with l show ?thesis by simp
qed

lemma trim_fixed:
  assumes "u = [] \<or> (\<not> isWhiteSpace (hd u) \<and> \<not> isWhiteSpace (last u))"
  shows "trim u = u"
proof (cases u)
  case Nil
  then show ?thesis by (simp add: trim_def)
next
  case (Cons a as)
  with assms have h: "\<not> isWhiteSpace (hd u)" and l: "\<not> isWhiteSpace (last u)"
    by auto
  have 1: "dropWhile isWhiteSpace u = u"
    using h Cons by simp
  have "dropWhile isWhiteSpace (rev u) = rev u"
  proof (cases u rule: rev_cases)
    case Nil
    then show ?thesis by simp
  next
    case (snoc ys y)
    with l show ?thesis by simp
  qed
  with 1 show ?thesis by (simp add: trim_def)
qed

lemma trim_idem: "trim (trim t) = trim t"
  using trim_ends by (rule trim_fixed)

lemma trim_subset: "set (trim t) \<subseteq> set t"
  by (auto simp: trim_def dest!: set_dropWhileD)

lemma trim_length: "length (trim t) \<le> length t"
proof -
  have "length (trim t) \<le> length (dropWhile isWhiteSpace t)"
    using length_dropWhile_le [of isWhiteSpace "rev (dropWhile isWhiteSpace t)"]
    by (simp add: trim_def)
  also have "\<dots> \<le> length t"
    by (rule length_dropWhile_le)
  finally show ?thesis .
qed

lemma fixed_dropWhile_space:
  "removeWholeWords t = t \<Longrightarrow>
   removeWholeWords (dropWhile isWhiteSpace t) = dropWhile isWhiteSpace t"
  by (induction t) (auto dest: whitespace_not_word)

lemma fixed_dropWhile_space_end:
  "removeWholeWords t = t \<Longrightarrow>
   removeWholeWords (rev (dropWhile isWhiteSpace (rev t))) = rev (dropWhile isWhiteSpace (rev t))"
proof (induction t rule: rev_induct)
  case Nil
  then show ?case by simp
next
  case (snoc c xs)
  show ?case
  proof (cases "isWhiteSpace c")
    case True
    then have "removeWholeWords (xs @ [c]) = removeWholeWords xs @ [c]"
      by (simp add: removeWholeWords_snoc whitespace_not_word)
    with snoc.prems have "removeWholeWords xs = xs" by simp
    with snoc.IH True show ?thesis by simp
  next
    case False
    with snoc.prems show ?thesis by simp
  qed
qed

lemma fixed_trim: "removeWholeWords t = t \<Longrightarrow> removeWholeWords (trim t) = trim t"
  unfolding trim_def by (intro fixed_dropWhile_space_end fixed_dropWhile_space)

lemma charAt_drop: "charAt (drop i s) 0 = charAt s i"
  by (auto simp: charAt_def)

lemma fixed_no_whole_word:
  assumes fx: "removeWholeWords r = r" and w: "w \<in> set denylist"
  shows "\<not> wholeWordOccurs w r"
proof
  assume "wholeWordOccurs w r"
  then obtain i where "i \<in> set [0..<Suc (length r)]" and at: "wholeWordAt w r i"
    unfolding wholeWordOccurs_def list_ex_iff by blast
  then have i: "i \<le> length r"
    by auto
  let ?pre = "take i r" and ?x = "drop i r"
  from at have bd: "wordBoundary (prevChar r i) (charAt r i)" and m: "wordThenBoundary ?x w"
    by (simp_all add: wholeWordAt_def)
  note run = wordThenBoundary_run [OF w m]
  let ?R = "takeWhile isWordChar ?x" and ?rest = "dropWhile isWordChar ?x"
  have den: "isDenied ?R"
    using run w by (auto simp: isDenied_def list_ex_iff)
  have R: "?R \<noteq> []" "\<forall>c\<in>set ?R. isWordChar c"
    using isDenied_word_run [OF den] by auto
  have rest: "?rest = [] \<or> \<not> isWordChar (hd ?rest)"
    using hd_dropWhile [of isWordChar ?x] by blast
  have "\<not> isWordAt (prevChar r i)"
    using bd run by (simp add: wordBoundary_def charAt_drop)
  then have pre: "?pre = [] \<or> \<not> isWordChar (last ?pre)"
  proof (cases "i = 0")
    case True
    then show ?thesis by simp
  next
    case False
    with i have lt: "i - 1 < length r"
      by arith
    then have "take i r = take (i - 1) r @ [r ! (i - 1)]"
      using False take_Suc_conv_app_nth [of "i - 1" r] by simp
    then have "last ?pre = r ! (i - 1)"
      by simp
    note this lt
    with \<open>\<not> isWordAt (prevChar r i)\<close> False show ?thesis
      by (simp add: prevChar_def charAt_def isWordAt_def)
  qed
  have "removeWholeWords ?x = removeWholeWords (?R @ ?rest)"
    by simp
  also have "\<dots> = removeWholeWords ?rest"
    using R rest den by (subst removeWholeWords_run_append) auto
  finally have x: "removeWholeWords ?x = removeWholeWords ?rest" .
  have "removeWholeWords r = removeWholeWords ?pre @ removeWholeWords ?rest"
    using removeWholeWords_append [OF pre, of ?x] x by simp
  then have "length (removeWholeWords r) =
      length (removeWholeWords ?pre) + length (removeWholeWords ?rest)"
    by (metis length_append)
  moreover have "length (removeWholeWords r) = length r"
    using fx by simp
  moreover have "length (removeWholeWords ?pre) \<le> length ?pre"
    by (rule removeWholeWords_length)
  moreover have "length (removeWholeWords ?rest) \<le> length ?rest"
    by (rule removeWholeWords_length)
  moreover have "length ?x = length ?R + length ?rest"
    by (metis length_append takeWhile_dropWhile_id)
  moreover have "length r = length ?pre + length ?x"
    by (metis append_take_drop_id length_append)
  moreover have "0 < length ?R"
    using R by simp
  ultimately show False
    by linarith
qed

lemma removeChars_subset: "set (removeChars s) \<inter> set forbiddenChars = {}"
  by (auto simp: removeChars_def)

lemma removeChars_fixed: "set s \<inter> set forbiddenChars = {} \<Longrightarrow> removeChars s = s"
  by (auto simp: removeChars_def filter_id_conv)

lemma removeChars_length: "length (removeChars s) \<le> length s"
  by (simp add: removeChars_def)

lemma sanitize_cases:
  "sanitizeInput input n = [] \<or>
   (\<exists>s. input = Some (JString s) \<and>
     sanitizeInput input n = trim (removeWholeWords (removeChars (take (nat n) s))))"
proof (cases input)
  case None
  then show ?thesis by (simp add: sanitizeInput_def)
next
  case (Some v)
  then show ?thesis
    by (cases v) (simp_all add: sanitize_string, simp_all add: sanitizeInput_def)
qed

lemma sanitize_no_forbidden: "set (sanitizeInput input n) \<inter> set forbiddenChars = {}"
proof -
  have "set (trim (removeWholeWords (removeChars t))) \<inter> set forbiddenChars = {}" for t
    using trim_subset [of "removeWholeWords (removeChars t)"]
      removeWholeWords_subset [of "removeChars t"] removeChars_subset [of t]
    by blast
  then show ?thesis
    using sanitize_cases [of input n] by (elim disjE exE conjE) simp_all
qed

lemma sanitize_fixed_words: "removeWholeWords (sanitizeInput input n) = sanitizeInput input n"
  using sanitize_cases [of input n]
  by (auto simp: fixed_trim removeWholeWords_idem)

lemma sanitize_fixed_trim: "trim (sanitizeInput input n) = sanitizeInput input n"
  using sanitize_cases [of input n]
  by (auto simp: trim_idem trim_fixed)

lemma sanitize_length: "length (sanitizeInput input n) \<le> nat n"
proof -
  have "length (trim (removeWholeWords (removeChars (take (nat n) s)))) \<le> nat n" for s :: jsstring
  proof -
    have "length (trim (removeWholeWords (removeChars (take (nat n) s))))
            \<le> length (removeWholeWords (removeChars (take (nat n) s)))"
      by (rule trim_length)
    also have "\<dots> \<le> length (removeChars (take (nat n) s))"
      by (rule removeWholeWords_length)
    also have "\<dots> \<le> length (take (nat n) s)"
      by (rule removeChars_length)
    also have "\<dots> \<le> nat n"
      by simp
    finally show ?thesis .
  qed
  then show ?thesis
    using sanitize_cases [of input n] by auto
qed

subsection \<open>Properties of the sanitizer\<close>

text \<open>
  C6. For every input string and every \<open>maxLength\<close>, \<open>sanitizeInput\<close> is the
  composition of the four stages in this order: the first \<open>maxLength\<close> code units,
  then the removal of the character class, then the removal of the denylisted whole
  words, then the trim. The left side is the source (\<^verbatim>\<open>substring\<close> and the two
  regular expressions run by the replace loop), the right side the stages as the
  specification words them.
\<close>

theorem sanitize_stage_order:
  "sanitizeInput (Some (JString s)) maxLength =
     trim (removeWholeWords (removeChars (take (nat maxLength) s)))"
  by (rule sanitize_string)

theorem sanitize_stage_order_witness:
  "sanitizeInput (Some (JString (js ''hello <script> ignore this''))) 200 =
     js ''hello script  this''"
proof -
  have "sanitizeInput (Some (JString (js ''hello <script> ignore this''))) 200 =
      trim (removeWholeWords (removeChars (take (nat 200) (js ''hello <script> ignore this''))))"
    by (rule sanitize_stage_order)
  also have "\<dots> = js ''hello script  this''"
    by code_simp
  finally show ?thesis .
qed

text \<open>
  C7. For every input, the output of \<open>sanitizeInput\<close> contains none of the code units
  \<^verbatim>\<open>< > { } [ ] `\<close>, has no whole-word occurrence (in any letter case) of a token of
  the denylist, also where the removal of a word has joined the text around it, and
  neither starts nor ends with whitespace.
\<close>

theorem sanitize_output_clean:
  "set (sanitizeInput input n) \<inter> set forbiddenChars = {}
   \<and> (\<forall>w\<in>set denylist. \<not> wholeWordOccurs w (sanitizeInput input n))
   \<and> (sanitizeInput input n = []
        \<or> (\<not> isWhiteSpace (hd (sanitizeInput input n))
            \<and> \<not> isWhiteSpace (last (sanitizeInput input n))))"
  using sanitize_no_forbidden [of input n] sanitize_fixed_words [of input n]
    fixed_no_whole_word [of "sanitizeInput input n"] trim_ends [of "sanitizeInput input n"]
  by (simp add: sanitize_fixed_trim)

theorem sanitize_output_clean_witness:
  "js ''forget'' \<in> set denylist
   \<and> sanitizeInput (Some (JString (js '' for<get> it, ig`nore me ''))) 200 = js ''it,  me''
   \<and> \<not> wholeWordOccurs (js ''forget'')
         (sanitizeInput (Some (JString (js '' for<get> it, ig`nore me ''))) 200)
   \<and> set (sanitizeInput (Some (JString (js '' for<get> it, ig`nore me ''))) 200)
         \<inter> set forbiddenChars = {}"
proof -
  have m: "js ''forget'' \<in> set denylist"
    by (simp add: denylist_def)
  have v: "sanitizeInput (Some (JString (js '' for<get> it, ig`nore me ''))) 200 = js ''it,  me''"
    by code_simp
  from m v show ?thesis
    using sanitize_output_clean [of "Some (JString (js '' for<get> it, ig`nore me ''))" 200]
    by blast
qed

text \<open>
  C9, as the specification states it: for all \<open>s\<close> and \<open>n\<close> the length of
  \<open>sanitize(s, n)\<close> is at most \<open>n\<close>. \<^verbatim>\<open>substring\<close> treats a negative
  \<open>maxLength\<close> as 0, so the result is empty and its length 0 exceeds the negative
  bound.
\<close>

theorem sanitize_length_negative_counterexample:
  "\<not> int (length (sanitizeInput (Some (JString (js ''abc''))) (- 1))) \<le> - 1"
  by code_simp

text \<open>
  C9, amended: for all inputs and all \<open>n\<close> the length of the result is at most
  \<open>max n 0\<close>, and for an absent, null or other non-string input the result is the
  empty string. \<open>sanitizeInput\<close> is a total function: no stage of it can throw.
\<close>

theorem sanitize_length_clamped:
  "int (length (sanitizeInput input n)) \<le> max n 0
   \<and> ((\<forall>s. input \<noteq> Some (JString s)) \<longrightarrow> sanitizeInput input n = [])"
  using sanitize_length [of input n]
  by (auto simp: sanitizeInput_def split: option.splits json.splits)

theorem sanitize_length_clamped_witness:
  "(\<forall>s. Some (JNumber 42) \<noteq> Some (JString s))
   \<and> sanitizeInput (Some (JNumber 42)) 5 = []
   \<and> sanitizeInput None 5 = []
   \<and> int (length (sanitizeInput (Some (JString (js ''hello world''))) 5)) \<le> max 5 0"
  using sanitize_length_clamped [of "Some (JNumber 42)" 5]
    sanitize_length_clamped [of None 5]
    sanitize_length_clamped [of "Some (JString (js ''hello world''))" 5]
  by simp

text \<open>
  C10. \<open>sanitizeInput\<close> is idempotent: sanitizing its own output with the same
  \<open>maxLength\<close> changes nothing.
\<close>

theorem sanitize_idempotent:
  "sanitizeInput (Some (JString (sanitizeInput input n))) n = sanitizeInput input n"
proof -
  let ?r = "sanitizeInput input n"
  have "take (nat n) ?r = ?r"
    using sanitize_length [of input n] by simp
  moreover have "removeChars ?r = ?r"
    using sanitize_no_forbidden by (rule removeChars_fixed)
  ultimately show ?thesis
    by (simp add: sanitize_string sanitize_fixed_words sanitize_fixed_trim)
qed

theorem sanitize_idempotent_witness:
  "sanitizeInput (Some (JString (sanitizeInput (Some (JString (js ''a ignore b ''))) 200))) 200
     = js ''a  b''"
proof -
  have "sanitizeInput (Some (JString (js ''a ignore b ''))) 200 = js ''a  b''"
    by code_simp
  then show ?thesis
    using sanitize_idempotent [of "Some (JString (js ''a ignore b ''))" 200] by simp
qed

section \<open>The response extractor\<close>

subsection \<open>The greedy brace match\<close>

lemma matchBraces_SomeD:
  assumes "matchBraces s = Some m"
  shows "\<exists>pre post. s = pre @ m @ post \<and> 0x7B \<notin> set pre \<and> 0x7D \<notin> set post
           \<and> 2 \<le> length m \<and> hd m = 0x7B \<and> last m = 0x7D"
proof -
  let ?pre = "takeWhile (\<lambda>c. c \<noteq> 0x7B) s"
  let ?t = "dropWhile (\<lambda>c. c \<noteq> 0x7B) s"
  from assms obtain c0 rest where t: "?t = c0 # rest"
    by (cases ?t) (auto simp: matchBraces_def)
  let ?body = "rev (dropWhile (\<lambda>c. c \<noteq> 0x7D) (rev rest))"
  let ?post = "rev (takeWhile (\<lambda>c. c \<noteq> 0x7D) (rev rest))"
  define body where "body = ?body"
  have "matchBraces s = (case body of [] \<Rightarrow> None | b # bs \<Rightarrow> Some (c0 # b # bs))"
    by (simp only: matchBraces_def t body_def list.case)
  with assms have "body \<noteq> [] \<and> m = c0 # body"
    by (cases body) simp_all
  then have body: "?body \<noteq> []" and m: "m = c0 # ?body"
    unfolding body_def by blast+
  have c0: "c0 = 0x7B"
    using hd_dropWhile [of "\<lambda>c. c \<noteq> 0x7B" s] t by simp
  have "rev rest = takeWhile (\<lambda>c. c \<noteq> 0x7D) (rev rest) @ dropWhile (\<lambda>c. c \<noteq> 0x7D) (rev rest)"
    by simp
  then have "rev (rev rest) = ?body @ ?post"
    by (metis rev_append)
  then have rest: "rest = ?body @ ?post"
    by simp
  have "s = ?pre @ ?t"
    by simp
  with t m rest have 1: "s = ?pre @ m @ ?post"
    by simp
  have 2: "0x7B \<notin> set ?pre"
    by (auto dest: set_takeWhileD)
  have 3: "0x7D \<notin> set ?post"
    by (auto dest: set_takeWhileD)
  have "last ?body = hd (dropWhile (\<lambda>c. c \<noteq> 0x7D) (rev rest))"
    using body by (simp add: last_rev)
  also have "\<dots> = 0x7D"
    using body hd_dropWhile [of "\<lambda>c. c \<noteq> 0x7D" "rev rest"] by simp
  finally have "last ?body = 0x7D" .
  moreover have "last m = last ?body"
    unfolding m using body by (rule last_ConsR)
  ultimately have 4: "last m = 0x7D"
    by simp
  have 5: "2 \<le> length m" "hd m = 0x7B"
    using m body c0 by (simp_all add: Suc_le_eq)
  from 1 2 3 4 5 show ?thesis by blast
qed

lemma matchBraces_SomeI:
  assumes s: "s = pre @ m @ post" and pre: "0x7B \<notin> set pre" and post: "0x7D \<notin> set post"
    and m: "2 \<le> length m" "hd m = 0x7B" "last m = 0x7D"
  shows "matchBraces s = Some m"
proof -
  from m obtain body where mb: "m = 0x7B # body" and body: "body \<noteq> []"
    by (cases m) (auto simp: Suc_le_eq)
  have lb: "last body = 0x7D"
    using m(3) mb body by simp
  have "dropWhile (\<lambda>c. c \<noteq> 0x7B) (pre @ m @ post) = dropWhile (\<lambda>c. c \<noteq> 0x7B) (m @ post)"
    using pre by (intro dropWhile_append2) auto
  then have t: "dropWhile (\<lambda>c. c \<noteq> 0x7B) s = 0x7B # body @ post"
    using s mb by simp
  obtain bs where rb: "rev body = 0x7D # bs"
    using body lb by (cases body rule: rev_cases) auto
  have "dropWhile (\<lambda>c. c \<noteq> 0x7D) (rev post @ rev body) = dropWhile (\<lambda>c. c \<noteq> 0x7D) (rev body)"
    using post by (intro dropWhile_append2) auto
  then have "dropWhile (\<lambda>c. c \<noteq> 0x7D) (rev (body @ post)) = rev body"
    using rb by simp
  then have "rev (dropWhile (\<lambda>c. c \<noteq> 0x7D) (rev (body @ post))) = body"
    by simp
  with t body mb show ?thesis
    by (cases body) (simp_all add: matchBraces_def)
qed

lemma matchBraces_no_brace:
  "0x7B \<notin> set s \<or> 0x7D \<notin> set s \<Longrightarrow> matchBraces s = None"
proof (rule ccontr)
  assume a: "0x7B \<notin> set s \<or> 0x7D \<notin> set s" and "matchBraces s \<noteq> None"
  then obtain m where "matchBraces s = Some m" by auto
  from matchBraces_SomeD [OF this] obtain pre post where
    s: "s = pre @ m @ post" and m: "2 \<le> length m" "hd m = 0x7B" "last m = 0x7D"
    by blast
  from m have "m \<noteq> []" by auto
  then have "hd m \<in> set m" "last m \<in> set m" by simp_all
  with s m a show False by auto
qed

subsection \<open>Properties of extractStructured\<close>

text \<open>
  C1, as the specification states it: phase 1 returns the parsed value only when it is
  an object, and a parse that yields a primitive or an array goes on to phase 2. The
  source has no test of the parsed value: \<^verbatim>\<open>JSON.parse\<close> did not throw, so the
  \<^verbatim>\<open>catch\<close> block is not entered. On \<^verbatim>\<open>[{"a":1}]\<close> phase 1 returns the
  array, although phase 2 on the same text would find the object \<^verbatim>\<open>{"a":1}\<close>.
\<close>

theorem phase1_returns_array_counterexample:
  "JSON_parse (cleanContent (js ''[{\"a\":1}]'')) = Some (JArray [JObject [(js ''a'', JNumber 1)]])
   \<and> extractStructured (js ''[{\"a\":1}]'') = Inr (JArray [JObject [(js ''a'', JNumber 1)]])
   \<and> matchBraces (js ''[{\"a\":1}]'') = Some (js ''{\"a\":1}'')
   \<and> JSON_parse (js ''{\"a\":1}'') = Some (JObject [(js ''a'', JNumber 1)])"
  by code_simp

text \<open>
  C1, amended: phase 1 returns the parsed value whenever the parse of the fence-stripped
  text succeeds, whatever kind of JSON value it is; the fallback is reached only when
  that parse throws.
\<close>

theorem phase1_returns_parsed_value:
  "JSON_parse (cleanContent content) = Some v \<Longrightarrow> extractStructured content = Inr v"
  by (simp add: extractStructured_def)

theorem phase1_returns_parsed_value_witness:
  "JSON_parse (cleanContent (js ''```json\<newline>{\"a\":1}\<newline>```'')) = Some (JObject [(js ''a'', JNumber 1)])
   \<and> extractStructured (js ''```json\<newline>{\"a\":1}\<newline>```'') = Inr (JObject [(js ''a'', JNumber 1)])"
proof -
  have p: "JSON_parse (cleanContent (js ''```json\<newline>{\"a\":1}\<newline>```'')) = Some (JObject [(js ''a'', JNumber 1)])"
    by code_simp
  from p phase1_returns_parsed_value [OF p] show ?thesis by blast
qed

text \<open>
  C4. When the parse of phase 1 fails, the result is decided by the original raw text
  alone: phase 2 takes the one span from the first \<^verbatim>\<open>{\<close> to the last
  \<^verbatim>\<open>}\<close> of the whole raw text (no \<^verbatim>\<open>{\<close> before it, no \<^verbatim>\<open>}\<close>
  behind it) and parses exactly that span, also when the span holds garbage between an
  inner object and the last brace.
\<close>

theorem phase2_greedy_span_of_raw_text:
  assumes "JSON_parse (cleanContent content) = None"
  shows "extractStructured content =
           (case matchBraces content of
              None \<Rightarrow> Inl InvalidFormat
            | Some m \<Rightarrow> (case JSON_parse m of None \<Rightarrow> Inl FailedToParse | Some v \<Rightarrow> Inr v))
         \<and> (\<forall>m. matchBraces content = Some m \<longleftrightarrow>
               (\<exists>pre post. content = pre @ m @ post \<and> 0x7B \<notin> set pre \<and> 0x7D \<notin> set post
                  \<and> 2 \<le> length m \<and> hd m = 0x7B \<and> last m = 0x7D))"
proof
  show "extractStructured content =
           (case matchBraces content of
              None \<Rightarrow> Inl InvalidFormat
            | Some m \<Rightarrow> (case JSON_parse m of None \<Rightarrow> Inl FailedToParse | Some v \<Rightarrow> Inr v))"
    using assms by (simp add: extractStructured_def split: option.splits)
  show "\<forall>m. matchBraces content = Some m \<longleftrightarrow>
          (\<exists>pre post. content = pre @ m @ post \<and> 0x7B \<notin> set pre \<and> 0x7D \<notin> set post
             \<and> 2 \<le> length m \<and> hd m = 0x7B \<and> last m = 0x7D)"
    using matchBraces_SomeD matchBraces_SomeI by blast
qed

theorem phase2_greedy_span_of_raw_text_witness:
  "JSON_parse (cleanContent (js ''Sure: {\"a\":\"```\"} ok'')) = None
   \<and> matchBraces (js ''Sure: {\"a\":\"```\"} ok'') = Some (js ''{\"a\":\"```\"}'')
   \<and> extractStructured (js ''Sure: {\"a\":\"```\"} ok'') = Inr (JObject [(js ''a'', JString (js ''```''))])
   \<and> JSON_parse (cleanContent (js ''{\"a\":1} trailing garbage }'')) = None
   \<and> extractStructured (js ''{\"a\":1} trailing garbage }'') = Inl FailedToParse"
proof -
  have 1: "JSON_parse (cleanContent (js ''Sure: {\"a\":\"```\"} ok'')) = None"
    by code_simp
  have 2: "matchBraces (js ''Sure: {\"a\":\"```\"} ok'') = Some (js ''{\"a\":\"```\"}'')"
    by code_simp
  have 3: "JSON_parse (js ''{\"a\":\"```\"}'') = Some (JObject [(js ''a'', JString (js ''```''))])"
    by code_simp
  have 4: "JSON_parse (cleanContent (js ''{\"a\":1} trailing garbage }'')) = None"
    by code_simp
  have 5: "matchBraces (js ''{\"a\":1} trailing garbage }'') = Some (js ''{\"a\":1} trailing garbage }'')"
    by code_simp
  have 6: "JSON_parse (js ''{\"a\":1} trailing garbage }'') = None"
    by code_simp
  from phase2_greedy_span_of_raw_text [OF 1] 2 3
  have "extractStructured (js ''Sure: {\"a\":\"```\"} ok'') = Inr (JObject [(js ''a'', JString (js ''```''))])"
    by simp
  moreover from phase2_greedy_span_of_raw_text [OF 4] 5 6
  have "extractStructured (js ''{\"a\":1} trailing garbage }'') = Inl FailedToParse"
    by simp
  ultimately show ?thesis using 1 2 4 by blast
qed

text \<open>
  C5, as the specification states it: extraction fails exactly when no JSON object can
  be recovered, in particular when the raw text has no \<^verbatim>\<open>{\<close>. The text
  \<^verbatim>\<open>[1, 2]\<close> has no brace and holds no object, and extraction succeeds with
  the array.
\<close>

theorem extract_without_brace_counterexample:
  "0x7B \<notin> set (js ''[1, 2]'')
   \<and> matchBraces (js ''[1, 2]'') = None
   \<and> extractStructured (js ''[1, 2]'') = Inr (JArray [JNumber 1, JNumber 2])"
  by code_simp

text \<open>
  C5, amended: extraction fails exactly when no JSON value can be recovered, that is
  when the parse of phase 1 throws and the span of phase 2 does not exist or does not
  parse; the span does not exist when the raw text has no \<^verbatim>\<open>{\<close> or no
  \<^verbatim>\<open>}\<close>; and a value that is returned is the complete parse of the stripped
  text or of the span, never a partial result.
\<close>

theorem extract_fails_iff:
  "((\<exists>e. extractStructured content = Inl e) \<longleftrightarrow>
      (JSON_parse (cleanContent content) = None
       \<and> (\<forall>m. matchBraces content = Some m \<longrightarrow> JSON_parse m = None)))
   \<and> ((0x7B \<notin> set content \<or> 0x7D \<notin> set content) \<longrightarrow> matchBraces content = None)
   \<and> (\<forall>v. extractStructured content = Inr v \<longrightarrow>
         (JSON_parse (cleanContent content) = Some v
          \<or> (\<exists>m. matchBraces content = Some m \<and> JSON_parse m = Some v)))"
  using matchBraces_no_brace [of content]
  by (auto simp: extractStructured_def split: option.splits)

theorem extract_fails_iff_witness:
  "JSON_parse (cleanContent (js ''no json here'')) = None
   \<and> matchBraces (js ''no json here'') = None
   \<and> (\<exists>e. extractStructured (js ''no json here'') = Inl e)"
proof -
  have 1: "JSON_parse (cleanContent (js ''no json here'')) = None"
    by code_simp
  have 2: "matchBraces (js ''no json here'') = None"
    by code_simp
  from 1 2 show ?thesis
    using extract_fails_iff [of "js ''no json here''"] by simp
qed

section \<open>The request handlers\<close>

subsection \<open>Setting a property\<close>










subsection \<open>Validation and stamping\<close>

lemma analyze_requires_clean_name:
  "sanitizeInput (productName req) 200 = [] \<Longrightarrow> fst (analyze req apiKey reply now) = 400"
  by (simp add: analyze_def)

lemma chat_requires_truthy_message:
  "\<not> truthy (message req) \<Longrightarrow> fst (fst (chat req apiKey reply)) = 400"
  by (simp add: chat_def)

text \<open>
  C2. A request whose required text is missing or empty after sanitization is answered
  with status 400. \<^verbatim>\<open>/api/analyze\<close> tests the sanitized product name and does
  so (\<open>analyze_requires_clean_name\<close>); \<^verbatim>\<open>/api/chat\<close> tests the raw
  message only (\<open>chat_requires_truthy_message\<close>). The message \<^verbatim>\<open>ignore\<close>
  is not empty, sanitizes to the empty string, and is answered with status 200 and an
  empty question sent to the completion API, where the same text as a product name is
  answered with 400.
\<close>

theorem chat_accepts_message_sanitized_to_empty:
  "truthy (Some (JString (js ''ignore'')))
   \<and> sanitizeInput (Some (JString (js ''ignore''))) 500 = []
   \<and> chat \<lparr>message = Some (JString (js ''ignore'')), productContext = None, chatHistory = None\<rparr>
        (Some (js ''key'')) (Completion (js ''Hello''))
      = ((200, JObject [(js ''message'', JString (js ''Hello''))]), Some [])
   \<and> fst (analyze \<lparr>productName = Some (JString (js ''ignore'')), productUrl = None,
        detectedPrice = None, detectedRating = None, detectedReviewCount = None,
        isBundle = None\<rparr> (Some (js ''key'')) (Completion (js ''Hello'')) (js ''now'')) = 400"
  by code_simp



section \<open>Serializing and parsing again\<close>

subsection \<open>String literals\<close>

declare natString.simps [simp del]
declare tokenize.simps(2) [simp del]














declare stringEnd.simps(2) [simp del]
declare decodeString.simps(2) [simp del]










subsection \<open>Tokens\<close>






















subsection \<open>The tokens of a serialized value\<close>




subsection \<open>The parser on the tokens of a value\<close>











subsection \<open>The parser builds enumerated objects\<close>
















subsection \<open>Extraction of a serialized object\<close>










end
